theory Spec2Isabelle
  imports Main "HOL-Library.AList"
begin

section \<open>Python exceptions\<close>

text \<open>The two exceptions that the modelled code can raise by itself.\<close>

datatype py_error = KeyError string | TypeError

section \<open>Python strings\<close>

text \<open>
  A Python \<open>str\<close> is modelled as a \<open>string\<close>, one \<open>char\<close> per character: the characters
  are those with a code point below 256, each \<open>char\<close> standing for the character of its
  code. On these \<open>str.isspace\<close>, \<open>str.strip\<close> and \<open>str.lower\<close> are as below: twelve of
  them are whitespace, and the upper-case letters are the 26 of ASCII and the 30 from
  \<open>0xC0\<close> to \<open>0xDE\<close> (without the multiplication sign \<open>0xD7\<close>), each \<open>0x20\<close> below its
  lower-case letter.
\<close>

definition py_isspace :: "char \<Rightarrow> bool" where
  \<comment> \<open>the characters for which \<open>str.isspace\<close> holds: TAB, LF, VT, FF, CR, FS, GS, RS,
      US, the blank, NEL and the no-break space\<close>
  "py_isspace c =
     (c \<in> set [CHR 0x09, CHR 0x0A, CHR 0x0B, CHR 0x0C, CHR 0x0D,
                CHR 0x1C, CHR 0x1D, CHR 0x1E, CHR 0x1F, CHR 0x20,
                CHR 0x85, CHR 0xA0])"

definition py_strip :: "string \<Rightarrow> string" where
  \<comment> \<open>\<open>s.strip()\<close>: leading and trailing whitespace removed\<close>
  "py_strip s = rev (dropWhile py_isspace (rev (dropWhile py_isspace s)))"

definition upper_letters :: string where
  "upper_letters =
     ''ABCDEFGHIJKLMNOPQRSTUVWXYZ'' @
     [CHR 0xC0, CHR 0xC1, CHR 0xC2, CHR 0xC3, CHR 0xC4, CHR 0xC5, CHR 0xC6, CHR 0xC7,
      CHR 0xC8, CHR 0xC9, CHR 0xCA, CHR 0xCB, CHR 0xCC, CHR 0xCD, CHR 0xCE, CHR 0xCF,
      CHR 0xD0, CHR 0xD1, CHR 0xD2, CHR 0xD3, CHR 0xD4, CHR 0xD5, CHR 0xD6,
      CHR 0xD8, CHR 0xD9, CHR 0xDA, CHR 0xDB, CHR 0xDC, CHR 0xDD, CHR 0xDE]"

definition lower_letters :: string where
  "lower_letters =
     ''abcdefghijklmnopqrstuvwxyz'' @
     [CHR 0xE0, CHR 0xE1, CHR 0xE2, CHR 0xE3, CHR 0xE4, CHR 0xE5, CHR 0xE6, CHR 0xE7,
      CHR 0xE8, CHR 0xE9, CHR 0xEA, CHR 0xEB, CHR 0xEC, CHR 0xED, CHR 0xEE, CHR 0xEF,
      CHR 0xF0, CHR 0xF1, CHR 0xF2, CHR 0xF3, CHR 0xF4, CHR 0xF5, CHR 0xF6,
      CHR 0xF8, CHR 0xF9, CHR 0xFA, CHR 0xFB, CHR 0xFC, CHR 0xFD, CHR 0xFE]"

definition lower_char :: "char \<Rightarrow> char" where
  \<comment> \<open>an upper-case letter becomes its lower-case letter, any other character stays\<close>
  "lower_char c =
     (case map_of (zip upper_letters lower_letters) c of
        Some l \<Rightarrow> l
      | None \<Rightarrow> c)"

definition py_lower :: "string \<Rightarrow> string" where
  \<comment> \<open>\<open>s.lower()\<close>\<close>
  "py_lower s = map lower_char s"

fun starts_with :: "string \<Rightarrow> string \<Rightarrow> bool" where
  "starts_with [] hay = True"
| "starts_with (n # ns) [] = False"
| "starts_with (n # ns) (h # hs) = (n = h \<and> starts_with ns hs)"

fun py_in :: "string \<Rightarrow> string \<Rightarrow> bool" where
  \<comment> \<open>\<open>needle in hay\<close> on strings: \<open>needle\<close> occurs at some position of \<open>hay\<close>\<close>
  "py_in needle [] = (needle = [])"
| "py_in needle (h # hs) = (starts_with needle (h # hs) \<or> py_in needle hs)"

section \<open>The classifier (\<open>app/services/spam_classifier.py\<close>)\<close>

text \<open>
  The text-generation pipeline is the pretrained model behind \<open>self.classifier\<close>; it is
  a parameter \<open>generate\<close> that maps the prompt to
  \<open>self.classifier(prompt)[0]['generated_text']\<close>.
\<close>

definition build_prompt :: "string \<Rightarrow> string \<Rightarrow> string \<Rightarrow> string" where
  "build_prompt sender subject body_snip =
     ''Does the following email seem like spam?'' @ [CHR 0x0A] @
     ''Sender: '' @ sender @ [CHR 0x0A] @
     ''Subject: '' @ subject @ [CHR 0x0A] @
     ''Body: '' @ body_snip @ [CHR 0x0A] @
     ''Answer with one word: spam or not-spam.''"

text \<open>
  The body is \<open>None\<close> or a \<open>str\<close>. \<open>body or ""\<close> is its right operand when the body is
  \<open>None\<close> or the empty string, else the body. The slice \<open>x[:256]\<close> of a \<open>str\<close> is its first
  256 characters; \<open>None\<close> has no slice, and slicing it raises \<open>TypeError\<close>. The result of
  \<open>classify_email\<close> is the exception that escapes (\<open>Inl\<close>) or the label (\<open>Inr\<close>).
\<close>

definition py_or_empty :: "string option \<Rightarrow> string option" where
  \<comment> \<open>\<open>body or ""\<close>\<close>
  "py_or_empty body =
     (case body of None \<Rightarrow> Some [] | Some b \<Rightarrow> if b = [] then Some [] else Some b)"

definition py_slice_256 :: "string option \<Rightarrow> py_error + string" where
  \<comment> \<open>\<open>x[:256]\<close>\<close>
  "py_slice_256 x = (case x of None \<Rightarrow> Inl TypeError | Some b \<Rightarrow> Inr (take 256 b))"

definition classify_email ::
  "(string \<Rightarrow> string) \<Rightarrow> string \<Rightarrow> string \<Rightarrow> string option \<Rightarrow> py_error + string" where
  "classify_email generate sender subject body =
     (case py_slice_256 (py_or_empty body) of
        Inl err \<Rightarrow> Inl err
      | Inr body_snip \<Rightarrow>
          (let prompt = build_prompt sender subject body_snip;
               output = py_lower (py_strip (generate prompt))
           in Inr (if py_in ''spam'' output then ''spam'' else ''not-spam'')))"

section \<open>The mail client (\<open>app/services/gmail_service.py\<close>)\<close>

subsection \<open>Body decoding\<close>





subsection \<open>Moving messages to the trash\<close>

text \<open>
  The remote mailbox is a state \<open>'mb\<close>. One call
  \<open>service.users().messages().trash(userId="me", id=msg_id).execute()\<close> is the parameter
  \<open>trash\<close>: it either raises (\<open>Inl\<close> the exception) or returns with the mailbox updated.
  The function returns the mailbox it leaves behind together with the count or the
  exception that escapes.
\<close>

fun trash_loop ::
  "('mb \<Rightarrow> string \<Rightarrow> 'e + 'mb) \<Rightarrow> 'mb \<Rightarrow> nat \<Rightarrow> string list \<Rightarrow> 'mb \<times> ('e + nat)" where
  "trash_loop trash mb count [] = (mb, Inr count)"
| "trash_loop trash mb count (msg_id # rest) =
     (case trash mb msg_id of
        Inl e \<Rightarrow> (mb, Inl e)
      | Inr mb' \<Rightarrow> trash_loop trash mb' (count + 1) rest)"

definition move_emails_to_trash ::
  "('mb \<Rightarrow> string \<Rightarrow> 'e + 'mb) \<Rightarrow> 'mb \<Rightarrow> string list \<Rightarrow> 'mb \<times> ('e + nat)" where
  "move_emails_to_trash trash mb message_ids = trash_loop trash mb 0 message_ids"

section \<open>The result cache (\<open>app/main.py\<close>)\<close>

text \<open>
  A time stamp is a \<open>datetime\<close>, counted in microseconds. Every \<open>dt.now()\<close> of the source
  is a reading of the wall clock of its own, passed in by the caller of the model:
  \<open>store_user_emails\<close> reads the clock twice, \<open>get_user_emails\<close> once, and
  \<open>cleanup_expired_cache\<close> once for every entry it tests.

  \<open>email_cache\<close> is a dictionary: an association list in insertion order. Assigning to
  a key keeps the key's place or appends, \<open>del\<close> removes the key.
\<close>

type_synonym time = int

definition two_hours :: int where
  \<comment> \<open>\<open>timedelta(hours=2)\<close>\<close>
  "two_hours = 2 * 60 * 60 * 1000000"

record 'm cache_entry =
  emails :: "'m list"
  source :: string
  created_at :: time
  expires_at :: time

type_synonym 'm email_cache = "(string \<times> 'm cache_entry) list"

definition store_user_emails ::
  "time \<Rightarrow> time \<Rightarrow> string \<Rightarrow> 'm list \<Rightarrow> string \<Rightarrow> 'm email_cache \<Rightarrow> 'm email_cache" where
  \<comment> \<open>\<open>now1\<close> and \<open>now2\<close> are the two clock readings, in the order of the dictionary display\<close>
  "store_user_emails now1 now2 user_id msgs src cache =
     AList.update user_id
       \<lparr>emails = msgs, source = src, created_at = now1, expires_at = now2 + two_hours\<rparr>
       cache"

definition get_user_emails ::
  "time \<Rightarrow> string \<Rightarrow> 'm email_cache \<Rightarrow> ('m list option \<times> string option) \<times> 'm email_cache" where
  "get_user_emails now user_id cache =
     (case map_of cache user_id of
        None \<Rightarrow> ((None, None), cache)
      | Some cached \<Rightarrow>
          if now > expires_at cached then ((None, None), AList.delete user_id cache)
          else ((Some (emails cached), Some (source cached)), cache))"

fun expired_uids :: "(nat \<Rightarrow> time) \<Rightarrow> nat \<Rightarrow> 'm email_cache \<Rightarrow> string list" where
  \<comment> \<open>the list comprehension of \<open>cleanup_expired_cache\<close>; \<open>clock k\<close> is the reading taken
      when the entry at position \<open>k\<close> is tested\<close>
  "expired_uids clock k [] = []"
| "expired_uids clock k ((uid, data) # rest) =
     (if clock k > expires_at data then [uid] else []) @ expired_uids clock (Suc k) rest"

definition cleanup_expired_cache :: "(nat \<Rightarrow> time) \<Rightarrow> 'm email_cache \<Rightarrow> 'm email_cache" where
  "cleanup_expired_cache clock cache =
     (let expired = expired_uids clock 0 cache in fold AList.delete expired cache)"

definition get_active_results ::
  "(nat \<Rightarrow> time) \<Rightarrow> time \<Rightarrow> string option \<Rightarrow> 'm email_cache
     \<Rightarrow> ('m list option \<times> string option) \<times> 'm email_cache" where
  \<comment> \<open>\<open>session_user_id\<close> is \<open>request.session.get("user_id")\<close>\<close>
  "get_active_results clock now session_user_id cache =
     (case session_user_id of
        None \<Rightarrow> ((None, None), cache)
      | Some user_id \<Rightarrow>
          if user_id = [] then ((None, None), cache)
          else get_user_emails now user_id (cleanup_expired_cache clock cache))"

definition logout :: "string option \<Rightarrow> 'm email_cache \<Rightarrow> 'm email_cache" where
  \<comment> \<open>the effect of the \<open>/logout\<close> handler on the cache\<close>
  "logout session_user_id cache =
     (case session_user_id of
        None \<Rightarrow> cache
      | Some user_id \<Rightarrow>
          if user_id \<noteq> [] \<and> map_of cache user_id \<noteq> None then AList.delete user_id cache
          else cache)"

record cache_stats_response =
  cached_users :: nat
  cache_entries :: "(string \<times> nat \<times> string) list"

definition cache_stats ::
  "(nat \<Rightarrow> time) \<Rightarrow> 'm email_cache \<Rightarrow> cache_stats_response \<times> 'm email_cache" where
  \<comment> \<open>the \<open>/cache-stats\<close> handler: the sweep, then a projection of what is left. Of each
      entry the response keeps \<open>user_id\<close>, \<open>email_count\<close> and \<open>source\<close>; the memory sizes and
      \<open>expires_in_minutes\<close> are floating-point figures computed from the same entries
      and left out.\<close>
  "cache_stats clock cache =
     (let cache' = cleanup_expired_cache clock cache
      in (\<lparr>cached_users = length cache',
           cache_entries =
             map (\<lambda>(uid, data). (take 8 uid @ ''...'', length (emails data), source data)) cache'\<rparr>,
          cache'))"

inductive reachable :: "'m email_cache \<Rightarrow> bool" where
  \<comment> \<open>the states of \<open>email_cache\<close>: empty at start, then changed by these functions only\<close>
  start: "reachable []"
| put: "reachable c \<Longrightarrow> reachable (store_user_emails now1 now2 user_id msgs src c)"
| get: "reachable c \<Longrightarrow> reachable (snd (get_user_emails now user_id c))"
| sweep: "reachable c \<Longrightarrow> reachable (cleanup_expired_cache clock c)"
| leave: "reachable c \<Longrightarrow> reachable (logout session_user_id c)"

section \<open>Moving spam to the trash (\<open>app/main.py\<close>)\<close>

text \<open>
  A message is a dictionary from field names to cell values of a type \<open>'v\<close>: strings after
  a fetch, whatever the spreadsheet reader produced after an upload. Python's \<open>str\<close> on
  such a value is the parameter \<open>str\<close>. The default of \<open>e.get("prediction", "")\<close> is
  the empty string, whose \<open>str\<close> is itself.
\<close>

type_synonym 'v message = "string \<rightharpoonup> 'v"

definition prediction_is_spam :: "('v \<Rightarrow> string) \<Rightarrow> 'v message \<Rightarrow> bool" where
  \<comment> \<open>\<open>str(e.get("prediction", "")).lower().strip() == "spam"\<close>\<close>
  "prediction_is_spam str e =
     (py_strip (py_lower (case e ''prediction'' of None \<Rightarrow> [] | Some v \<Rightarrow> str v)) = ''spam'')"

fun spam_ids :: "('v \<Rightarrow> string) \<Rightarrow> 'v message list \<Rightarrow> py_error + string list" where
  \<comment> \<open>\<open>[str(e["id"]) for e in emails if ...]\<close>: the test comes first, and \<open>e["id"]\<close>
      raises \<open>KeyError\<close> on a selected message without an id\<close>
  "spam_ids str [] = Inr []"
| "spam_ids str (e # rest) =
     (if prediction_is_spam str e then
        (case e ''id'' of
           None \<Rightarrow> Inl (KeyError ''id'')
         | Some v \<Rightarrow>
             (case spam_ids str rest of
                Inl err \<Rightarrow> Inl err
              | Inr ids \<Rightarrow> Inr (str v # ids)))
      else spam_ids str rest)"

fun show_nat :: "nat \<Rightarrow> string" where
  \<comment> \<open>the decimal digits of a count, as the f-string prints it\<close>
  "show_nat n =
     (if n < 10 then [''0123456789'' ! n]
      else show_nat (n div 10) @ [''0123456789'' ! (n mod 10)])"

declare show_nat.simps [simp del]

datatype response =
  JSONResponse nat string "string option"
    \<comment> \<open>\<open>{"status": "success", "moved": _, "message": _, "source": _}\<close>\<close>
| HTTPException nat string
    \<comment> \<open>status code and detail\<close>
| Uncaught py_error
    \<comment> \<open>an exception that no handler catches\<close>

definition move_to_trash ::
  "(response + ('mb \<Rightarrow> string \<Rightarrow> string + 'mb)) \<Rightarrow> ('v \<Rightarrow> string) \<Rightarrow> (nat \<Rightarrow> time) \<Rightarrow> time
     \<Rightarrow> string option \<Rightarrow> 'mb \<Rightarrow> 'v message email_cache
     \<Rightarrow> response \<times> 'mb \<times> 'v message email_cache" where
  \<comment> \<open>\<open>gmail_service\<close> is the result of \<open>get_gmail_service_from_session\<close>: the
      \<open>HTTPException\<close> it raises, or the client, given by its trash call; an exception of
      the trash call is given by its \<open>str\<close>\<close>
  "move_to_trash gmail_service str clock now session_user_id mb cache =
     (case gmail_service of
        Inl exn \<Rightarrow> (exn, mb, cache)
      | Inr trash \<Rightarrow>
          (case get_active_results clock now session_user_id cache of
             ((found, src), cache') \<Rightarrow>
               (case found of
                  None \<Rightarrow>
                    (HTTPException 404 ''No results found. Please run detection first.'',
                     mb, cache')
                | Some [] \<Rightarrow>
                    (HTTPException 404 ''No results found. Please run detection first.'',
                     mb, cache')
                | Some (e # es) \<Rightarrow>
                    (case spam_ids str (e # es) of
                       Inl err \<Rightarrow> (Uncaught err, mb, cache')
                     | Inr [] \<Rightarrow>
                         (JSONResponse 0 ''No spam emails to move'' src,
                          mb, cache')
                     | Inr (i # ids) \<Rightarrow>
                         (case move_emails_to_trash trash mb (i # ids) of
                            (mb', Inr moved) \<Rightarrow>
                              (JSONResponse moved
                                 (show_nat moved @ '' mails have been moved to trash'') src,
                               mb', cache')
                          | (mb', Inl e) \<Rightarrow>
                              (HTTPException 500 (''Failed to move emails: '' @ e),
                               mb', cache'))))))"

section \<open>Auxiliary notions and example environments\<close>


definition fixed_clock :: "time \<Rightarrow> nat \<Rightarrow> time" where
  \<comment> \<open>a clock that shows the same time at every reading of one sweep\<close>
  "fixed_clock now k = now"



definition example_trash :: "string list \<Rightarrow> string \<Rightarrow> string + string list" where
  "example_trash mb msg_id = (if msg_id = ''bad'' then Inl ''HttpError 404'' else Inr (mb @ [msg_id]))"

section \<open>Substring search\<close>

lemma starts_with_iff: "starts_with n h \<longleftrightarrow> (\<exists>post. h = n @ post)"
  by (induction n h rule: starts_with.induct) auto

lemma py_in_iff: "py_in n h \<longleftrightarrow> (\<exists>pre post. h = pre @ n @ post)"
proof (induction h)
  case Nil
  then show ?case by simp
next
  case (Cons a h)
  show ?case
  proof
    assume "py_in n (a # h)"
    then consider "starts_with n (a # h)" | "py_in n h" by auto
    then show "\<exists>pre post. a # h = pre @ n @ post"
    proof cases
      case 1
      then obtain post where "a # h = n @ post" using starts_with_iff by blast
      then have "a # h = [] @ n @ post" by simp
      then show ?thesis by blast
    next
      case 2
      then obtain pre post where "h = pre @ n @ post" using Cons.IH by blast
      then have "a # h = (a # pre) @ n @ post" by simp
      then show ?thesis by blast
    qed
  next
    assume "\<exists>pre post. a # h = pre @ n @ post"
    then obtain pre post where e: "a # h = pre @ n @ post" by blast
    show "py_in n (a # h)"
    proof (cases pre)
      case Nil
      then have "starts_with n (a # h)" using e starts_with_iff by auto
      then show ?thesis by simp
    next
      case (Cons b pre')
      then have "h = pre' @ n @ post" using e by simp
      then have "py_in n h" using Cons.IH by blast
      then show ?thesis by simp
    qed
  qed
qed

section \<open>The label of the classifier\<close>

lemmas str_defs =
  py_lower_def py_strip_def py_isspace_def lower_char_def upper_letters_def lower_letters_def

lemma slice_or_empty:
  "py_slice_256 (py_or_empty body) = Inr (take 256 (case body of None \<Rightarrow> [] | Some b \<Rightarrow> b))"
  by (cases body) (simp_all add: py_slice_256_def py_or_empty_def)

text \<open>
  C1. For every generated text, \<open>classify_email\<close> trims and lower-cases the text and
  answers \<open>spam\<close> exactly when \<open>spam\<close> occurs somewhere in the result, else \<open>not-spam\<close>;
  a model that answers \<open>not-spam\<close> therefore gets the label \<open>spam\<close>.
\<close>

theorem classify_email_substring:
  "classify_email generate sender subject body =
     Inr (if \<exists>pre post.
           py_lower (py_strip (generate (build_prompt sender subject
             (take 256 (case body of None \<Rightarrow> [] | Some b \<Rightarrow> b))))) = pre @ ''spam'' @ post
      then ''spam'' else ''not-spam'')
   \<and> classify_email (\<lambda>prompt. ''not-spam'') sender subject body = Inr ''spam''"
proof
  show "classify_email generate sender subject body =
     Inr (if \<exists>pre post.
           py_lower (py_strip (generate (build_prompt sender subject
             (take 256 (case body of None \<Rightarrow> [] | Some b \<Rightarrow> b))))) = pre @ ''spam'' @ post
      then ''spam'' else ''not-spam'')"
    by (simp add: classify_email_def slice_or_empty Let_def py_in_iff)
  have "py_in ''spam'' (py_lower (py_strip ''not-spam''))"
    by (simp add: str_defs)
  then show "classify_email (\<lambda>prompt. ''not-spam'') sender subject body = Inr ''spam''"
    by (simp add: classify_email_def slice_or_empty)
qed

theorem classify_email_substring_witness:
  "classify_email (\<lambda>prompt. '' Not-SPAM '') ''a@example.com'' ''Hello'' (Some ''Hi'') = Inr ''spam'' \<and>
   classify_email (\<lambda>prompt. ''ham'') ''a@example.com'' ''Hello'' None = Inr ''not-spam''"
proof -
  have a: "py_lower (py_strip '' Not-SPAM '') = ''not-'' @ ''spam'' @ []"
    by (simp add: str_defs)
  have b: "\<not> py_in ''spam'' (py_lower (py_strip ''ham''))"
    by (simp add: str_defs)
  from a have a': "\<exists>pre post. py_lower (py_strip '' Not-SPAM '') = pre @ ''spam'' @ post"
    by blast
  from b have b': "\<not> (\<exists>pre post. py_lower (py_strip ''ham'') = pre @ ''spam'' @ post)"
    unfolding py_in_iff .
  show ?thesis
    using classify_email_substring [of "\<lambda>prompt. '' Not-SPAM ''" "''a@example.com''" "''Hello''" "Some ''Hi''"]
      classify_email_substring [of "\<lambda>prompt. ''ham''" "''a@example.com''" "''Hello''" None]
      a' b'
    by simp
qed

text \<open>
  C10. For every sender, subject and body, the body being \<open>None\<close> or a \<open>str\<close>,
  \<open>classify_email\<close> raises nothing and returns one of the two labels. Slicing \<open>None\<close>
  raises \<open>TypeError\<close>; the code slices \<open>body or ""\<close>, which is never \<open>None\<close>: a missing
  body is replaced by the empty string before the slice, and gets the label of the
  empty body. The label is that of the text generated for the prompt with the first 256
  characters of the body. The model call is taken to return a text.
\<close>

theorem classify_email_total:
  "(\<exists>label. classify_email generate sender subject body = Inr label
       \<and> (label = ''spam'' \<or> label = ''not-spam''))
   \<and> py_slice_256 None = Inl TypeError
   \<and> py_or_empty body \<noteq> None
   \<and> py_or_empty None = Some []
   \<and> classify_email generate sender subject None = classify_email generate sender subject (Some [])
   \<and> classify_email generate sender subject body
       = Inr (if py_in ''spam'' (py_lower (py_strip (generate (build_prompt sender subject
                (take 256 (case body of None \<Rightarrow> [] | Some b \<Rightarrow> b))))))
              then ''spam'' else ''not-spam'')"
proof (intro conjI)
  have run: "classify_email generate sender subject x
       = Inr (if py_in ''spam'' (py_lower (py_strip (generate (build_prompt sender subject
                (take 256 (case x of None \<Rightarrow> [] | Some b \<Rightarrow> b))))))
              then ''spam'' else ''not-spam'')" for x
    by (simp add: classify_email_def slice_or_empty Let_def)
  show "classify_email generate sender subject body
       = Inr (if py_in ''spam'' (py_lower (py_strip (generate (build_prompt sender subject
                (take 256 (case body of None \<Rightarrow> [] | Some b \<Rightarrow> b))))))
              then ''spam'' else ''not-spam'')"
    by (rule run)
  then show "\<exists>label. classify_email generate sender subject body = Inr label
       \<and> (label = ''spam'' \<or> label = ''not-spam'')"
    by (cases "py_in ''spam'' (py_lower (py_strip (generate (build_prompt sender subject
                (take 256 (case body of None \<Rightarrow> [] | Some b \<Rightarrow> b))))))") simp_all
  show "py_slice_256 None = Inl TypeError"
    by (simp add: py_slice_256_def)
  show "py_or_empty body \<noteq> None"
    by (cases body) (simp_all add: py_or_empty_def)
  show "py_or_empty None = Some []"
    by (simp add: py_or_empty_def)
  show "classify_email generate sender subject None = classify_email generate sender subject (Some [])"
    by (simp add: run)
qed

text \<open>
  A missing body, an empty one and one of 300 characters. The example models answer
  \<open>spam\<close> when the prompt is longer than 350 or 400 characters; the prompt for the long
  body has 380, since only 256 characters of the body are in it.
\<close>

theorem classify_email_total_witness:
  "classify_email (\<lambda>prompt. if length prompt > 350 then ''spam'' else ''no'')
      ''a@example.com'' ''Hello'' None = Inr ''not-spam''
   \<and> classify_email (\<lambda>prompt. if length prompt > 350 then ''spam'' else ''no'')
      ''a@example.com'' ''Hello'' (Some []) = Inr ''not-spam''
   \<and> classify_email (\<lambda>prompt. if length prompt > 350 then ''spam'' else ''no'')
      ''a@example.com'' ''Hello'' (Some (replicate 300 CHR ''x'')) = Inr ''spam''
   \<and> classify_email (\<lambda>prompt. if length prompt > 400 then ''spam'' else ''no'')
      ''a@example.com'' ''Hello'' (Some (replicate 300 CHR ''x'')) = Inr ''not-spam''"
proof -
  let ?g = "\<lambda>prompt :: string. if length prompt > 350 then ''spam'' else ''no''"
  let ?h = "\<lambda>prompt :: string. if length prompt > 400 then ''spam'' else ''no''"
  let ?long = "Some (replicate 300 CHR ''x'')"
  have short: "length (build_prompt ''a@example.com'' ''Hello'' []) = 124"
    by (simp add: build_prompt_def)
  have long: "length (build_prompt ''a@example.com'' ''Hello'' (replicate 256 CHR ''x'')) = 380"
    by (simp add: build_prompt_def)
  note N = classify_email_total [of ?g "''a@example.com''" "''Hello''" None]
  note G = classify_email_total [of ?g "''a@example.com''" "''Hello''" ?long]
  note H = classify_email_total [of ?h "''a@example.com''" "''Hello''" ?long]
  from N have "classify_email ?g ''a@example.com'' ''Hello'' None
      = Inr (if py_in ''spam'' (py_lower (py_strip (?g (build_prompt ''a@example.com'' ''Hello''
                (take 256 (case None of None \<Rightarrow> [] | Some b \<Rightarrow> b))))))
              then ''spam'' else ''not-spam'')"
    by blast
  then have A: "classify_email ?g ''a@example.com'' ''Hello'' None = Inr ''not-spam''"
    by (simp add: short str_defs)
  from N have "classify_email ?g ''a@example.com'' ''Hello'' None
      = classify_email ?g ''a@example.com'' ''Hello'' (Some [])"
    by blast
  with A have B: "classify_email ?g ''a@example.com'' ''Hello'' (Some []) = Inr ''not-spam''"
    by simp
  from G have "classify_email ?g ''a@example.com'' ''Hello'' ?long
      = Inr (if py_in ''spam'' (py_lower (py_strip (?g (build_prompt ''a@example.com'' ''Hello''
                (take 256 (case ?long of None \<Rightarrow> [] | Some b \<Rightarrow> b))))))
              then ''spam'' else ''not-spam'')"
    by blast
  then have C: "classify_email ?g ''a@example.com'' ''Hello'' ?long = Inr ''spam''"
    by (simp add: long str_defs)
  from H have "classify_email ?h ''a@example.com'' ''Hello'' ?long
      = Inr (if py_in ''spam'' (py_lower (py_strip (?h (build_prompt ''a@example.com'' ''Hello''
                (take 256 (case ?long of None \<Rightarrow> [] | Some b \<Rightarrow> b))))))
              then ''spam'' else ''not-spam'')"
    by blast
  then have D: "classify_email ?h ''a@example.com'' ''Hello'' ?long = Inr ''not-spam''"
    by (simp add: long str_defs)
  from A B C D show ?thesis by (intro conjI)
qed

section \<open>Body decoding\<close>






section \<open>The trash loop\<close>

lemma trash_loop_all_succeed:
  "length states = Suc (length ids) \<Longrightarrow>
   (\<forall>k<length ids. trash (states ! k) (ids ! k) = Inr (states ! Suc k)) \<Longrightarrow>
   trash_loop trash (states ! 0) count ids = (states ! length ids, Inr (count + length ids))"
proof (induction ids arbitrary: states count)
  case Nil
  then show ?case by simp
next
  case (Cons i ids)
  from Cons.prems(1) obtain s0 rest where st: "states = s0 # rest" "length rest = Suc (length ids)"
    by (cases states) auto
  from Cons.prems(2) have first: "trash s0 i = Inr (rest ! 0)"
    by (auto simp: st)
  have later: "\<forall>k<length ids. trash (rest ! k) (ids ! k) = Inr (rest ! Suc k)"
  proof (intro allI impI)
    fix k assume "k < length ids"
    then have "Suc k < length (i # ids)" by simp
    with Cons.prems(2) have "trash (states ! Suc k) ((i # ids) ! Suc k) = Inr (states ! Suc (Suc k))"
      by blast
    then show "trash (rest ! k) (ids ! k) = Inr (rest ! Suc k)" by (simp add: st)
  qed
  have "trash_loop trash (rest ! 0) (count + 1) ids
          = (rest ! length ids, Inr (count + 1 + length ids))"
    by (rule Cons.IH [OF st(2) later])
  then show ?case using first by (simp add: st)
qed

lemma trash_loop_first_failure:
  "length states = Suc k \<Longrightarrow> k < length ids \<Longrightarrow>
   (\<forall>j<k. trash (states ! j) (ids ! j) = Inr (states ! Suc j)) \<Longrightarrow>
   trash (states ! k) (ids ! k) = Inl e \<Longrightarrow>
   trash_loop trash (states ! 0) count ids = (states ! k, Inl e)"
proof (induction k arbitrary: states ids count)
  case 0
  then obtain i rest where "ids = i # rest" by (cases ids) auto
  then show ?case using 0 by simp
next
  case (Suc k)
  from Suc.prems(2) obtain i rest where ids: "ids = i # rest" "k < length rest"
    by (cases ids) auto
  from Suc.prems(1) obtain s0 sts where st: "states = s0 # sts" "length sts = Suc k"
    by (cases states) auto
  from Suc.prems(3) have first: "trash s0 i = Inr (sts ! 0)"
    by (auto simp: st ids)
  have later: "\<forall>j<k. trash (sts ! j) (rest ! j) = Inr (sts ! Suc j)"
  proof (intro allI impI)
    fix j assume "j < k"
    then have "Suc j < Suc k" by simp
    with Suc.prems(3) have "trash (states ! Suc j) (ids ! Suc j) = Inr (states ! Suc (Suc j))"
      by blast
    then show "trash (sts ! j) (rest ! j) = Inr (sts ! Suc j)" by (simp add: st ids)
  qed
  from Suc.prems(4) have fail: "trash (sts ! k) (rest ! k) = Inl e"
    by (simp add: st ids)
  have "trash_loop trash (sts ! 0) (count + 1) rest = (sts ! k, Inl e)"
    by (rule Suc.IH [OF st(2) ids(2) later fail])
  then show ?case using first by (simp add: st ids)
qed

text \<open>
  C7. \<open>states\<close> is the run of the mailbox: \<open>states ! 0\<close> is the mailbox at the call and
  \<open>states ! Suc k\<close> the mailbox after the trash call for \<open>ids ! k\<close>, made on
  \<open>states ! k\<close>. When every call succeeds, the calls have been made one id after the
  other in list order and the count is the length of the list. When the call for
  \<open>ids ! k\<close> is the first to fail, its exception escapes, the mailbox is the one the
  first \<open>k\<close> calls left, with nothing undone, and the ids after \<open>ids ! k\<close> play no part.
\<close>

theorem trash_sequential:
  "(length states = Suc (length ids) \<and> states ! 0 = mb
      \<and> (\<forall>k<length ids. trash (states ! k) (ids ! k) = Inr (states ! Suc k))
    \<longrightarrow> move_emails_to_trash trash mb ids = (states ! length ids, Inr (length ids)))
   \<and> (length states = Suc k \<and> states ! 0 = mb \<and> k < length ids
      \<and> (\<forall>j<k. trash (states ! j) (ids ! j) = Inr (states ! Suc j))
      \<and> trash (states ! k) (ids ! k) = Inl e
    \<longrightarrow> move_emails_to_trash trash mb ids = (states ! k, Inl e)
        \<and> move_emails_to_trash trash mb (take (Suc k) ids @ others) = (states ! k, Inl e))"
proof (intro conjI impI)
  assume a: "length states = Suc (length ids) \<and> states ! 0 = mb
      \<and> (\<forall>k<length ids. trash (states ! k) (ids ! k) = Inr (states ! Suc k))"
  then show "move_emails_to_trash trash mb ids = (states ! length ids, Inr (length ids))"
    using trash_loop_all_succeed [of states ids trash 0]
    by (simp add: move_emails_to_trash_def)
next
  assume a: "length states = Suc k \<and> states ! 0 = mb \<and> k < length ids
      \<and> (\<forall>j<k. trash (states ! j) (ids ! j) = Inr (states ! Suc j))
      \<and> trash (states ! k) (ids ! k) = Inl e"
  then show "move_emails_to_trash trash mb ids = (states ! k, Inl e)"
    using trash_loop_first_failure [of states k ids trash e 0]
    by (simp add: move_emails_to_trash_def)
  from a have "k < length (take (Suc k) ids @ others)"
    and "\<forall>j<k. trash (states ! j) ((take (Suc k) ids @ others) ! j) = Inr (states ! Suc j)"
    and "trash (states ! k) ((take (Suc k) ids @ others) ! k) = Inl e"
    by (auto simp: nth_append)
  with a show "move_emails_to_trash trash mb (take (Suc k) ids @ others) = (states ! k, Inl e)"
    using trash_loop_first_failure [of states k "take (Suc k) ids @ others" trash e 0]
    by (simp add: move_emails_to_trash_def)
qed

theorem trash_sequential_witness:
  "move_emails_to_trash example_trash [] [''a'', ''b'', ''c''] = ([''a'', ''b'', ''c''], Inr 3)
   \<and> move_emails_to_trash example_trash [] [''a'', ''b'', ''bad'', ''c'']
       = ([''a'', ''b''], Inl ''HttpError 404'')"
proof -
  let ?states = "[[], [''a''], [''a'', ''b''], [''a'', ''b'', ''c'']]"
  have ok: "\<forall>k<length [''a'', ''b'', ''c''].
      example_trash (?states ! k) ([''a'', ''b'', ''c''] ! k) = Inr (?states ! Suc k)"
    by (simp add: example_trash_def All_less_Suc)
  have T1: "move_emails_to_trash example_trash [] [''a'', ''b'', ''c'']
      = (?states ! length [''a'', ''b'', ''c''], Inr (length [''a'', ''b'', ''c'']))"
    using ok trash_sequential [where states = ?states and ids = "[''a'', ''b'', ''c'']"
        and mb = "[]" and trash = example_trash]
    by simp
  let ?pre = "[[], [''a''], [''a'', ''b'']]"
  have ok2: "\<forall>j<2. example_trash (?pre ! j) ([''a'', ''b'', ''bad'', ''c''] ! j) = Inr (?pre ! Suc j)"
    by (simp add: example_trash_def All_less_Suc numeral_2_eq_2)
  have bad: "example_trash (?pre ! 2) ([''a'', ''b'', ''bad'', ''c''] ! 2) = Inl ''HttpError 404''"
    by (simp add: example_trash_def)
  have T2: "move_emails_to_trash example_trash [] [''a'', ''b'', ''bad'', ''c'']
      = (?pre ! 2, Inl ''HttpError 404'')"
    using ok2 bad trash_sequential [where states = ?pre and ids = "[''a'', ''b'', ''bad'', ''c'']"
        and mb = "[]" and trash = example_trash and k = 2 and e = "''HttpError 404''"]
    by simp
  from T1 T2 show ?thesis by simp
qed

section \<open>The cache as a dictionary\<close>

lemma map_of_store_same:
  "map_of (store_user_emails now1 now2 user_id msgs src cache) user_id
     = Some \<lparr>emails = msgs, source = src, created_at = now1, expires_at = now2 + two_hours\<rparr>"
  by (simp add: store_user_emails_def update_conv')

lemma fold_delete_filter:
  "fold AList.delete ks cache = filter (\<lambda>p. fst p \<notin> set ks) cache"
proof (induction ks arbitrary: cache)
  case Nil
  then show ?case by simp
next
  case (Cons k ks)
  have "fold AList.delete (k # ks) cache = fold AList.delete ks (AList.delete k cache)"
    by simp
  also have "\<dots> = filter (\<lambda>p. fst p \<notin> set ks) (AList.delete k cache)"
    by (rule Cons.IH)
  also have "\<dots> = filter (\<lambda>p. fst p \<notin> set (k # ks)) cache"
    by (auto simp: AList.delete_eq intro: filter_cong)
  finally show ?case .
qed

lemma map_of_fold_delete:
  "map_of (fold AList.delete ks cache) u = (if u \<in> set ks then None else map_of cache u)"
  by (induction ks arbitrary: cache) (auto simp: delete_conv')

lemma in_expired_uids:
  "u \<in> set (expired_uids clock k0 cache) \<longleftrightarrow>
     (\<exists>i<length cache. fst (cache ! i) = u \<and> clock (k0 + i) > expires_at (snd (cache ! i)))"
proof (induction cache arbitrary: k0)
  case Nil
  then show ?case by simp
next
  case (Cons p rest)
  obtain uid data where p: "p = (uid, data)" by (cases p)
  have "(\<exists>i<length (p # rest). fst ((p # rest) ! i) = u
            \<and> clock (k0 + i) > expires_at (snd ((p # rest) ! i)))
        \<longleftrightarrow> (uid = u \<and> clock k0 > expires_at data)
            \<or> (\<exists>j<length rest. fst (rest ! j) = u
                  \<and> clock (Suc k0 + j) > expires_at (snd (rest ! j)))"
    by (simp add: p less_Suc_eq_0_disj ex_disj_distrib conj_disj_distribR)
       (metis nth_Cons_Suc add_Suc_right)
  then show ?case using Cons.IH [of "Suc k0"] by (auto simp: p)
qed

lemma expired_uids_subset: "set (expired_uids clock k0 cache) \<subseteq> fst ` set cache"
  by (auto simp: in_expired_uids)

lemma filter_expired_enumerate:
  "distinct (map fst cache) \<Longrightarrow>
     filter (\<lambda>p. fst p \<notin> set (expired_uids clock k0 cache)) cache
       = map snd (filter (\<lambda>(k, uid, data). \<not> clock k > expires_at data) (enumerate k0 cache))"
proof (induction cache arbitrary: k0)
  case Nil
  then show ?case by simp
next
  case (Cons p rest)
  obtain uid data where p: "p = (uid, data)" by (cases p)
  from Cons.prems have fresh: "uid \<notin> fst ` set rest" and d: "distinct (map fst rest)"
    by (auto simp: p)
  have later: "uid \<notin> set (expired_uids clock (Suc k0) rest)"
    using fresh expired_uids_subset [of clock "Suc k0" rest] by blast
  have "filter (\<lambda>q. fst q \<notin> set (expired_uids clock k0 (p # rest))) rest
       = filter (\<lambda>q. fst q \<notin> set (expired_uids clock (Suc k0) rest)) rest"
    using fresh by (intro filter_cong) (auto simp: p)
  also have "\<dots> = map snd (filter (\<lambda>(k, uid, data). \<not> clock k > expires_at data)
                        (enumerate (Suc k0) rest))"
    by (rule Cons.IH [OF d])
  finally have tail:
    "filter (\<lambda>q. fst q \<notin> set (expired_uids clock k0 (p # rest))) rest
       = map snd (filter (\<lambda>(k, uid, data). \<not> clock k > expires_at data)
                        (enumerate (Suc k0) rest))" .
  have head: "fst p \<notin> set (expired_uids clock k0 (p # rest)) \<longleftrightarrow> \<not> clock k0 > expires_at data"
    using later by (simp add: p)
  have "filter (\<lambda>q. fst q \<notin> set (expired_uids clock k0 (p # rest))) (p # rest)
      = (if \<not> clock k0 > expires_at data then [p] else [])
        @ filter (\<lambda>q. fst q \<notin> set (expired_uids clock k0 (p # rest))) rest"
    using head by simp
  also have "\<dots> = map snd (filter (\<lambda>(k, uid, data). \<not> clock k > expires_at data)
                        (enumerate k0 (p # rest)))"
    unfolding tail by (simp add: p)
  finally show ?case .
qed

lemma filter_enumerate_ignore_index:
  "map snd (filter (\<lambda>(k, p). P p) (enumerate k0 xs)) = filter P xs"
  by (induction xs arbitrary: k0) auto

lemma cleanup_fixed_clock:
  assumes d: "distinct (map fst cache)"
  shows "cleanup_expired_cache (fixed_clock now) cache
           = filter (\<lambda>(uid, data). \<not> now > expires_at data) cache"
proof -
  have "cleanup_expired_cache (fixed_clock now) cache
      = map snd (filter (\<lambda>(k, p). \<not> now > expires_at (snd p)) (enumerate 0 cache))"
    using filter_expired_enumerate [OF d, of "fixed_clock now" 0]
    by (simp add: cleanup_expired_cache_def fold_delete_filter fixed_clock_def case_prod_unfold)
  also have "\<dots> = filter (\<lambda>p. \<not> now > expires_at (snd p)) cache"
    by (rule filter_enumerate_ignore_index)
  finally show ?thesis
    by (simp add: case_prod_unfold)
qed

lemma cleanup_no_expiry:
  assumes "\<forall>k<length cache. \<not> clock k > expires_at (snd (cache ! k))"
  shows "cleanup_expired_cache clock cache = cache"
proof -
  have "u \<notin> set (expired_uids clock 0 cache)" for u
    using assms by (auto simp: in_expired_uids)
  then have "expired_uids clock 0 cache = []"
    by (cases "expired_uids clock 0 cache") auto
  then show ?thesis by (simp add: cleanup_expired_cache_def)
qed

lemma set_cleanup_subset: "set (cleanup_expired_cache clock cache) \<subseteq> set cache"
  by (simp add: cleanup_expired_cache_def fold_delete_filter)

lemma set_get_subset: "set (snd (get_user_emails now u cache)) \<subseteq> set cache"
  by (auto simp: get_user_emails_def AList.delete_eq split: option.splits)

lemma distinct_cleanup:
  "distinct (map fst cache) \<Longrightarrow> distinct (map fst (cleanup_expired_cache clock cache))"
  by (simp add: cleanup_expired_cache_def fold_delete_filter distinct_map_filter)

lemma distinct_get:
  "distinct (map fst cache) \<Longrightarrow> distinct (map fst (snd (get_user_emails now user_id cache)))"
  by (simp add: get_user_emails_def distinct_delete split: option.splits)

lemma distinct_store:
  "distinct (map fst cache) \<Longrightarrow>
     distinct (map fst (store_user_emails now1 now2 user_id msgs src cache))"
  by (simp add: store_user_emails_def distinct_update)

lemma distinct_logout:
  "distinct (map fst cache) \<Longrightarrow> distinct (map fst (logout session_user_id cache))"
  by (simp add: logout_def distinct_delete split: option.splits)

lemma reachable_distinct: "reachable c \<Longrightarrow> distinct (map fst c)"
  by (induction rule: reachable.induct)
     (simp_all add: distinct_store distinct_get distinct_cleanup distinct_logout)

lemma distinct_at_most_one:
  "distinct (map fst c) \<Longrightarrow> length (filter (\<lambda>p. fst p = u) c) \<le> 1"
proof (induction c)
  case Nil
  then show ?case by simp
next
  case (Cons p c)
  show ?case
  proof (cases "fst p = u")
    case True
    then have "u \<notin> fst ` set c" using Cons.prems by auto
    then have "filter (\<lambda>p. fst p = u) c = []" by (auto simp: filter_empty_conv)
    then show ?thesis using True by simp
  next
    case False
    then show ?thesis using Cons by simp
  qed
qed

section \<open>Reading the cache\<close>

text \<open>
  C3. After \<open>store_user_emails\<close> the entry of the owner holds the messages and the
  provenance that were passed in, and its \<open>expires_at\<close> is the second clock reading
  plus two hours. A \<open>get_user_emails\<close> for that owner at any time up to and including
  \<open>expires_at\<close> returns exactly these messages and this provenance, and leaves the cache
  as it is.
\<close>

theorem get_after_put:
  "map_of (store_user_emails now1 now2 user_id msgs src cache) user_id
     = Some \<lparr>emails = msgs, source = src, created_at = now1, expires_at = now2 + two_hours\<rparr>
   \<and> (now \<le> now2 + two_hours \<longrightarrow>
        get_user_emails now user_id (store_user_emails now1 now2 user_id msgs src cache)
          = ((Some msgs, Some src), store_user_emails now1 now2 user_id msgs src cache))"
  by (simp add: get_user_emails_def map_of_store_same)

theorem get_after_put_witness:
  "(7200000001::int) \<le> 1 + two_hours \<and>
   get_user_emails 7200000001 ''u''
       (store_user_emails 0 1 ''u'' [''m1'', ''m2''] ''model prediction'' [])
     = ((Some [''m1'', ''m2''], Some ''model prediction''),
        [(''u'', \<lparr>emails = [''m1'', ''m2''], source = ''model prediction'',
                   created_at = 0, expires_at = 7200000001\<rparr>)])"
  using get_after_put [of 0 1 "''u''" "[''m1'', ''m2'']" "''model prediction''" "[]" 7200000001]
  by (simp add: two_hours_def store_user_emails_def)

text \<open>
  C4. A \<open>get_user_emails\<close> at a time strictly after the \<open>expires_at\<close> of the owner's entry
  returns \<open>(None, None)\<close> and deletes that entry, leaving the entries of the other owners
  as they are; for an owner without an entry it returns \<open>(None, None)\<close> and the cache
  stays as it is.
\<close>

theorem get_expired_or_missing:
  "(map_of cache user_id = Some cached \<and> now > expires_at cached \<longrightarrow>
      get_user_emails now user_id cache = ((None, None), AList.delete user_id cache)
      \<and> map_of (snd (get_user_emails now user_id cache)) user_id = None
      \<and> (\<forall>u. u \<noteq> user_id \<longrightarrow>
            map_of (snd (get_user_emails now user_id cache)) u = map_of cache u))
   \<and> (map_of cache user_id = None \<longrightarrow>
        get_user_emails now user_id cache = ((None, None), cache))"
  by (simp add: get_user_emails_def delete_conv')

theorem get_expired_or_missing_witness:
  "map_of (store_user_emails 0 1 ''u'' [''m1''] ''model prediction'' []) ''u''
     = Some \<lparr>emails = [''m1''], source = ''model prediction'', created_at = 0,
             expires_at = 7200000001\<rparr>
   \<and> (7200000002::int) > 7200000001
   \<and> get_user_emails 7200000002 ''u''
        (store_user_emails 0 1 ''u'' [''m1''] ''model prediction'' []) = ((None, None), [])
   \<and> map_of ([] :: string email_cache) ''v'' = None
   \<and> get_user_emails 5 ''v'' ([] :: string email_cache) = ((None, None), [])"
  using get_expired_or_missing [of "store_user_emails 0 1 ''u'' [''m1''] ''model prediction'' []"
      "''u''"
      "\<lparr>emails = [''m1''], source = ''model prediction'', created_at = 0,
        expires_at = 7200000001\<rparr>"
      7200000002]
    get_expired_or_missing [of "[] :: string email_cache" "''v''"
      "\<lparr>emails = [], source = [], created_at = 0, expires_at = 0\<rparr>" 5]
  by (simp add: two_hours_def store_user_emails_def)

section \<open>The time stamps of an entry\<close>

text \<open>
  The read operations, which are \<open>get_user_emails\<close>, the sweep and \<open>cache_stats\<close>, only
  ever delete entries: an entry they leave in the cache was there before, with the same
  messages, provenance, \<open>created_at\<close> and \<open>expires_at\<close>. When no entry is expired, the
  sweep and \<open>cache_stats\<close> leave the cache as it is, and so does a \<open>get_user_emails\<close> of
  an entry that is not expired.
\<close>

lemma reads_keep_entries:
  "set (snd (get_user_emails now u cache)) \<subseteq> set cache
   \<and> set (cleanup_expired_cache clock cache) \<subseteq> set cache
   \<and> set (snd (cache_stats clock cache)) \<subseteq> set cache
   \<and> ((\<forall>k<length cache. \<not> clock k > expires_at (snd (cache ! k))) \<longrightarrow>
         cleanup_expired_cache clock cache = cache \<and> snd (cache_stats clock cache) = cache)
   \<and> (map_of cache u = Some e \<and> \<not> now > expires_at e \<longrightarrow>
         snd (get_user_emails now u cache) = cache)"
proof (intro conjI impI)
  show "set (snd (get_user_emails now u cache)) \<subseteq> set cache" by (rule set_get_subset)
  show "set (cleanup_expired_cache clock cache) \<subseteq> set cache" by (rule set_cleanup_subset)
  show "set (snd (cache_stats clock cache)) \<subseteq> set cache"
    by (simp add: cache_stats_def Let_def set_cleanup_subset)
next
  assume a: "\<forall>k<length cache. \<not> clock k > expires_at (snd (cache ! k))"
  show "cleanup_expired_cache clock cache = cache" by (rule cleanup_no_expiry [OF a])
  then show "snd (cache_stats clock cache) = cache" by (simp add: cache_stats_def Let_def)
next
  assume "map_of cache u = Some e \<and> \<not> now > expires_at e"
  then show "snd (get_user_emails now u cache) = cache" by (simp add: get_user_emails_def)
qed

text \<open>
  C5. \<open>created_at\<close> and \<open>expires_at\<close> come from two readings of the clock. With the
  readings \<open>0\<close> and \<open>1\<close>, one microsecond apart, the entry that \<open>store_user_emails\<close>
  writes has \<open>created_at = 0\<close> and \<open>expires_at = 7200000001\<close>, which is not \<open>created_at\<close>
  plus two hours.
\<close>

theorem store_reads_clock_twice:
  "map_of (store_user_emails 0 1 ''u'' [''m1''] ''model prediction'' []) ''u''
     = Some \<lparr>emails = [''m1''], source = ''model prediction'', created_at = 0,
             expires_at = 7200000001\<rparr>
   \<and> expires_at \<lparr>emails = [''m1''], source = ''model prediction'', created_at = 0,
             expires_at = 7200000001\<rparr>
      \<noteq> created_at \<lparr>emails = [''m1''], source = ''model prediction'', created_at = 0,
             expires_at = 7200000001\<rparr> + two_hours"
  by (simp add: store_user_emails_def two_hours_def)

section \<open>One entry for each owner\<close>

text \<open>
  C6. In every reachable state of the cache no owner has more than one entry. Two
  \<open>store_user_emails\<close> for one owner, one right after the other, leave the cache that
  the second alone would have left: the entry holds the messages, the provenance and
  the time stamps of the second call, and these are what a later \<open>get_user_emails\<close>
  returns until the entry expires.
\<close>

theorem second_put_wins:
  "(reachable c \<longrightarrow>
      distinct (map fst c) \<and> (\<forall>uid. length (filter (\<lambda>p. fst p = uid) c) \<le> 1))
   \<and> store_user_emails now3 now4 user_id msgs2 src2
        (store_user_emails now1 now2 user_id msgs1 src1 cache)
      = store_user_emails now3 now4 user_id msgs2 src2 cache
   \<and> map_of (store_user_emails now3 now4 user_id msgs2 src2
        (store_user_emails now1 now2 user_id msgs1 src1 cache)) user_id
      = Some \<lparr>emails = msgs2, source = src2, created_at = now3, expires_at = now4 + two_hours\<rparr>
   \<and> fst (get_user_emails now user_id
        (store_user_emails now3 now4 user_id msgs2 src2
          (store_user_emails now1 now2 user_id msgs1 src1 cache)))
      = (if now > now4 + two_hours then (None, None) else (Some msgs2, Some src2))"
proof (intro conjI impI allI)
  assume r: "reachable c"
  then show d: "distinct (map fst c)" by (rule reachable_distinct)
  fix uid show "length (filter (\<lambda>p. fst p = uid) c) \<le> 1"
    by (rule distinct_at_most_one [OF d])
next
  show "store_user_emails now3 now4 user_id msgs2 src2
        (store_user_emails now1 now2 user_id msgs1 src1 cache)
      = store_user_emails now3 now4 user_id msgs2 src2 cache"
    by (simp add: store_user_emails_def)
  show "map_of (store_user_emails now3 now4 user_id msgs2 src2
        (store_user_emails now1 now2 user_id msgs1 src1 cache)) user_id
      = Some \<lparr>emails = msgs2, source = src2, created_at = now3, expires_at = now4 + two_hours\<rparr>"
    by (rule map_of_store_same)
  show "fst (get_user_emails now user_id
        (store_user_emails now3 now4 user_id msgs2 src2
          (store_user_emails now1 now2 user_id msgs1 src1 cache)))
      = (if now > now4 + two_hours then (None, None) else (Some msgs2, Some src2))"
    by (simp add: get_user_emails_def map_of_store_same)
qed

theorem second_put_wins_witness:
  "reachable (store_user_emails 5 6 ''u'' [''m2''] ''user corrected''
       (store_user_emails 0 1 ''u'' [''m1''] ''model prediction'' []))
   \<and> distinct (map fst (store_user_emails 5 6 ''u'' [''m2''] ''user corrected''
       (store_user_emails 0 1 ''u'' [''m1''] ''model prediction'' [])))
   \<and> store_user_emails 5 6 ''u'' [''m2''] ''user corrected''
       (store_user_emails 0 1 ''u'' [''m1''] ''model prediction'' [])
      = [(''u'', \<lparr>emails = [''m2''], source = ''user corrected'', created_at = 5,
                  expires_at = 7200000006\<rparr>)]
   \<and> fst (get_user_emails 7 ''u'' (store_user_emails 5 6 ''u'' [''m2''] ''user corrected''
       (store_user_emails 0 1 ''u'' [''m1''] ''model prediction'' [])))
      = (Some [''m2''], Some ''user corrected'')"
proof -
  let ?c = "store_user_emails 5 6 ''u'' [''m2''] ''user corrected''
       (store_user_emails 0 1 ''u'' [''m1''] ''model prediction'' [])"
  note T = second_put_wins [of ?c 5 6 "''u''" "[''m2'']" "''user corrected''"
       0 1 "[''m1'']" "''model prediction''" "[]" 7]
  have r: "reachable ?c"
    by (intro reachable.put reachable.start)
  from T r have d: "distinct (map fst ?c)" by blast
  from T have s: "?c = store_user_emails 5 6 ''u'' [''m2''] ''user corrected'' []" by blast
  have e: "store_user_emails 5 6 ''u'' [''m2''] ''user corrected'' ([] :: string email_cache)
      = [(''u'', \<lparr>emails = [''m2''], source = ''user corrected'', created_at = 5,
                  expires_at = 7200000006\<rparr>)]"
    by (simp add: store_user_emails_def two_hours_def)
  from T have "fst (get_user_emails 7 ''u'' ?c)
      = (if 7 > 6 + two_hours then (None, None) else (Some [''m2''], Some ''user corrected''))"
    by blast
  then have g: "fst (get_user_emails 7 ''u'' ?c) = (Some [''m2''], Some ''user corrected'')"
    by (simp add: two_hours_def)
  from s e have v: "?c = [(''u'', \<lparr>emails = [''m2''], source = ''user corrected'',
      created_at = 5, expires_at = 7200000006\<rparr>)]"
    by (rule trans)
  from r d v g show ?thesis by (intro conjI)
qed

section \<open>The sweep\<close>

text \<open>
  C9. \<open>clock k\<close> is the time at which the sweep tests the entry at position \<open>k\<close>. On a
  cache with one entry for each owner, the sweep deletes exactly the entries that are
  tested strictly after their \<open>expires_at\<close>: what is left are the other entries,
  unchanged and in their order. Looked up by owner, an entry tested after its
  \<open>expires_at\<close> is gone and any other entry is still there with its messages, provenance,
  \<open>created_at\<close> and \<open>expires_at\<close>, and no entry appears. With one time \<open>now\<close> for the
  whole sweep, what is left are the entries with \<open>\<not> now > expires_at\<close>.
\<close>

theorem sweep_removes_exactly_expired:
  "distinct (map fst cache) \<longrightarrow>
     cleanup_expired_cache clock cache
       = map snd (filter (\<lambda>(k, uid, data). \<not> clock k > expires_at data) (enumerate 0 cache))
     \<and> (\<forall>k<length cache.
           map_of (cleanup_expired_cache clock cache) (fst (cache ! k))
             = (if clock k > expires_at (snd (cache ! k)) then None else Some (snd (cache ! k))))
     \<and> (\<forall>u. map_of cache u = None \<longrightarrow> map_of (cleanup_expired_cache clock cache) u = None)
     \<and> cleanup_expired_cache (fixed_clock now) cache
         = filter (\<lambda>(uid, data). \<not> now > expires_at data) cache"
proof (intro impI conjI allI)
  assume d: "distinct (map fst cache)"
  show "cleanup_expired_cache clock cache
       = map snd (filter (\<lambda>(k, uid, data). \<not> clock k > expires_at data) (enumerate 0 cache))"
    using filter_expired_enumerate [OF d, of clock 0]
    by (simp add: cleanup_expired_cache_def fold_delete_filter)
  show "cleanup_expired_cache (fixed_clock now) cache
         = filter (\<lambda>(uid, data). \<not> now > expires_at data) cache"
    by (rule cleanup_fixed_clock [OF d])
  fix k assume k: "k < length cache"
  have look: "map_of cache (fst (cache ! k)) = Some (snd (cache ! k))"
    using d k by (metis map_of_eq_Some_iff nth_mem prod.collapse)
  have "fst (cache ! k) \<in> set (expired_uids clock 0 cache)
          \<longleftrightarrow> clock k > expires_at (snd (cache ! k))"
  proof
    assume "fst (cache ! k) \<in> set (expired_uids clock 0 cache)"
    then obtain i where i: "i < length cache" "fst (cache ! i) = fst (cache ! k)"
        "clock i > expires_at (snd (cache ! i))"
      by (auto simp: in_expired_uids)
    then have "i = k" using d k by (metis nth_eq_iff_index_eq length_map nth_map)
    then show "clock k > expires_at (snd (cache ! k))" using i by simp
  next
    assume "clock k > expires_at (snd (cache ! k))"
    then show "fst (cache ! k) \<in> set (expired_uids clock 0 cache)"
      using k by (auto simp: in_expired_uids)
  qed
  then show "map_of (cleanup_expired_cache clock cache) (fst (cache ! k))
             = (if clock k > expires_at (snd (cache ! k)) then None else Some (snd (cache ! k)))"
    using look by (simp add: cleanup_expired_cache_def map_of_fold_delete)
next
  fix u assume "map_of cache u = None"
  then show "map_of (cleanup_expired_cache clock cache) u = None"
    by (simp add: cleanup_expired_cache_def map_of_fold_delete)
qed

text \<open>
  Three owners, tested at the times 11, 12 and 13: the entries that expire at 10 and at
  12 go, the entry that expires at 20 stays.
\<close>

theorem sweep_removes_exactly_expired_witness:
  "distinct (map fst
      [(''u1'', \<lparr>emails = [''m1''], source = ''model prediction'', created_at = 0, expires_at = 10\<rparr>),
       (''u2'', \<lparr>emails = [''m2''], source = ''user corrected'', created_at = 7, expires_at = 20\<rparr>),
       (''u3'', \<lparr>emails = [], source = ''user corrected'', created_at = 2, expires_at = 12\<rparr>)])
   \<and> cleanup_expired_cache (\<lambda>k. 11 + int k)
      [(''u1'', \<lparr>emails = [''m1''], source = ''model prediction'', created_at = 0, expires_at = 10\<rparr>),
       (''u2'', \<lparr>emails = [''m2''], source = ''user corrected'', created_at = 7, expires_at = 20\<rparr>),
       (''u3'', \<lparr>emails = [], source = ''user corrected'', created_at = 2, expires_at = 12\<rparr>)]
     = [(''u2'', \<lparr>emails = [''m2''], source = ''user corrected'', created_at = 7, expires_at = 20\<rparr>)]"
proof -
  let ?c = "[(''u1'', \<lparr>emails = [''m1''], source = ''model prediction'', created_at = 0, expires_at = 10\<rparr>),
       (''u2'', \<lparr>emails = [''m2''], source = ''user corrected'', created_at = 7, expires_at = 20\<rparr>),
       (''u3'', \<lparr>emails = [], source = ''user corrected'', created_at = 2, expires_at = 12\<rparr>)]"
  have d: "distinct (map fst ?c)" by simp
  show ?thesis
    using d sweep_removes_exactly_expired [of ?c "\<lambda>k. 11 + int k"]
    by simp
qed

section \<open>Selecting the spam\<close>

lemma isspace_lower_char: "py_isspace (lower_char c) = py_isspace c"
  by (simp add: py_isspace_def lower_char_def upper_letters_def lower_letters_def)

lemma strip_lower_commute: "py_strip (py_lower s) = py_lower (py_strip s)"
proof -
  have comp: "py_isspace \<circ> lower_char = py_isspace"
    by (rule ext) (simp add: isspace_lower_char)
  show ?thesis
    by (simp add: py_strip_def py_lower_def dropWhile_map rev_map comp)
qed

lemma spam_ids_filter:
  "spam_ids str msgs =
     (if \<forall>e\<in>set msgs. prediction_is_spam str e \<longrightarrow> e ''id'' \<noteq> None
      then Inr (map (\<lambda>e. str (the (e ''id''))) (filter (prediction_is_spam str) msgs))
      else Inl (KeyError ''id''))"
proof (induction msgs)
  case Nil
  then show ?case by simp
next
  case (Cons e rest)
  show ?case
  proof (cases "prediction_is_spam str e")
    case False
    then show ?thesis using Cons.IH by simp
  next
    case True
    show ?thesis
    proof (cases "e ''id''")
      case None
      then show ?thesis using True by auto
    next
      case (Some v)
      then show ?thesis using True Cons.IH by auto
    qed
  qed
qed

text \<open>
  C8, as the code has it. The selected ids are those of exactly the messages whose
  prediction, trimmed and lower-cased, is \<open>spam\<close>, in the order of the list, when each
  of these messages has an id (as every cached message has), and the selection raises
  \<open>KeyError\<close> otherwise; of the predictions \<open>spam\<close>, \<open>Spam \<close>, \<open>not-spam\<close> and the empty
  string the first two are selected. When the cached list is not empty and nothing is
  selected, the handler answers with the zero-moved success response and the mailbox
  is the one it was given, whatever the trash call of the client is. When something is
  selected and the client moves it, the handler reports the client's count. An empty
  cached list is answered like a missing one, with the 404 error.
\<close>

theorem spam_selection:
  "spam_ids str msgs =
     (if \<forall>e\<in>set msgs.
           py_lower (py_strip (case e ''prediction'' of None \<Rightarrow> [] | Some v \<Rightarrow> str v)) = ''spam''
           \<longrightarrow> e ''id'' \<noteq> None
      then Inr (map (\<lambda>e. str (the (e ''id'')))
              (filter (\<lambda>e. py_lower (py_strip (case e ''prediction'' of None \<Rightarrow> [] | Some v \<Rightarrow> str v))
                            = ''spam'') msgs))
      else Inl (KeyError ''id''))
   \<and> (get_active_results clock now session_user_id cache = ((Some msgs, src), cache')
        \<and> msgs \<noteq> [] \<and> spam_ids str msgs = Inr []
      \<longrightarrow> move_to_trash (Inr trash) str clock now session_user_id mb cache
            = (JSONResponse 0 ''No spam emails to move'' src, mb, cache'))
   \<and> (get_active_results clock now session_user_id cache = ((Some msgs, src), cache')
        \<and> spam_ids str msgs = Inr (i # ids)
        \<and> move_emails_to_trash trash mb (i # ids) = (mb', Inr moved)
      \<longrightarrow> move_to_trash (Inr trash) str clock now session_user_id mb cache
            = (JSONResponse moved (show_nat moved @ '' mails have been moved to trash'') src,
               mb', cache'))
   \<and> (get_active_results clock now session_user_id cache = ((Some [], src), cache')
      \<longrightarrow> move_to_trash (Inr trash) str clock now session_user_id mb cache
            = (HTTPException 404 ''No results found. Please run detection first.'', mb, cache'))
   \<and> spam_ids id [[''id'' \<mapsto> ''m1'', ''prediction'' \<mapsto> ''spam''],
                   [''id'' \<mapsto> ''m2'', ''prediction'' \<mapsto> ''Spam ''],
                   [''id'' \<mapsto> ''m3'', ''prediction'' \<mapsto> ''not-spam''],
                   [''id'' \<mapsto> ''m4'', ''prediction'' \<mapsto> '''']]
       = Inr [''m1'', ''m2'']"
proof (intro conjI impI)
  have "prediction_is_spam str
          = (\<lambda>e. py_lower (py_strip (case e ''prediction'' of None \<Rightarrow> [] | Some v \<Rightarrow> str v)) = ''spam'')"
    by (rule ext) (simp add: prediction_is_spam_def strip_lower_commute)
  then show "spam_ids str msgs =
     (if \<forall>e\<in>set msgs.
           py_lower (py_strip (case e ''prediction'' of None \<Rightarrow> [] | Some v \<Rightarrow> str v)) = ''spam''
           \<longrightarrow> e ''id'' \<noteq> None
      then Inr (map (\<lambda>e. str (the (e ''id'')))
              (filter (\<lambda>e. py_lower (py_strip (case e ''prediction'' of None \<Rightarrow> [] | Some v \<Rightarrow> str v))
                            = ''spam'') msgs))
      else Inl (KeyError ''id''))"
    using spam_ids_filter [of str msgs] by simp
next
  assume a: "get_active_results clock now session_user_id cache = ((Some msgs, src), cache')
        \<and> msgs \<noteq> [] \<and> spam_ids str msgs = Inr []"
  then obtain e es where "msgs = e # es" by (cases msgs) auto
  with a show "move_to_trash (Inr trash) str clock now session_user_id mb cache
            = (JSONResponse 0 ''No spam emails to move'' src, mb, cache')"
    by (simp add: move_to_trash_def)
next
  assume a: "get_active_results clock now session_user_id cache = ((Some msgs, src), cache')
        \<and> spam_ids str msgs = Inr (i # ids)
        \<and> move_emails_to_trash trash mb (i # ids) = (mb', Inr moved)"
  then obtain e es where "msgs = e # es" by (cases msgs) auto
  with a show "move_to_trash (Inr trash) str clock now session_user_id mb cache
            = (JSONResponse moved (show_nat moved @ '' mails have been moved to trash'') src,
               mb', cache')"
    by (simp add: move_to_trash_def)
next
  assume "get_active_results clock now session_user_id cache = ((Some [], src), cache')"
  then show "move_to_trash (Inr trash) str clock now session_user_id mb cache
            = (HTTPException 404 ''No results found. Please run detection first.'', mb, cache')"
    by (simp add: move_to_trash_def)
next
  show "spam_ids id [[''id'' \<mapsto> ''m1'', ''prediction'' \<mapsto> ''spam''],
                   [''id'' \<mapsto> ''m2'', ''prediction'' \<mapsto> ''Spam ''],
                   [''id'' \<mapsto> ''m3'', ''prediction'' \<mapsto> ''not-spam''],
                   [''id'' \<mapsto> ''m4'', ''prediction'' \<mapsto> '''']]
       = Inr [''m1'', ''m2'']"
    by (simp add: prediction_is_spam_def str_defs)
qed

text \<open>
  Two caches of one live entry: a list without spam, and a list with three spam
  messages that the example mailbox takes, one of them with a next-line character in
  front of the word and a no-break space after it.
\<close>

theorem spam_selection_witness:
  "move_to_trash (Inr example_trash) id (fixed_clock 5) 5 (Some ''u'') []
      [(''u'', \<lparr>emails = [[''id'' \<mapsto> ''m3'', ''prediction'' \<mapsto> ''not-spam''], [''id'' \<mapsto> ''m4'']],
                 source = ''model prediction'', created_at = 0, expires_at = 7200000001\<rparr>)]
     = (JSONResponse 0 ''No spam emails to move'' (Some ''model prediction''), [],
        [(''u'', \<lparr>emails = [[''id'' \<mapsto> ''m3'', ''prediction'' \<mapsto> ''not-spam''], [''id'' \<mapsto> ''m4'']],
                 source = ''model prediction'', created_at = 0, expires_at = 7200000001\<rparr>)])
   \<and> move_to_trash (Inr example_trash) id (fixed_clock 5) 5 (Some ''u'') []
      [(''u'', \<lparr>emails = [[''id'' \<mapsto> ''m1'', ''prediction'' \<mapsto> ''spam''],
                           [''id'' \<mapsto> ''m2'', ''prediction'' \<mapsto> ''Spam ''],
                           [''id'' \<mapsto> ''m3'', ''prediction'' \<mapsto> ''not-spam''],
                           [''id'' \<mapsto> ''m5'', ''prediction'' \<mapsto> CHR 0x85 # ''SPAM'' @ [CHR 0xA0]]],
                 source = ''user corrected'', created_at = 0, expires_at = 7200000001\<rparr>)]
     = (JSONResponse 3 ''3 mails have been moved to trash'' (Some ''user corrected''),
        [''m1'', ''m2'', ''m5''],
        [(''u'', \<lparr>emails = [[''id'' \<mapsto> ''m1'', ''prediction'' \<mapsto> ''spam''],
                           [''id'' \<mapsto> ''m2'', ''prediction'' \<mapsto> ''Spam ''],
                           [''id'' \<mapsto> ''m3'', ''prediction'' \<mapsto> ''not-spam''],
                           [''id'' \<mapsto> ''m5'', ''prediction'' \<mapsto> CHR 0x85 # ''SPAM'' @ [CHR 0xA0]]],
                 source = ''user corrected'', created_at = 0, expires_at = 7200000001\<rparr>)])"
proof -
  let ?quiet = "[[''id'' \<mapsto> ''m3'', ''prediction'' \<mapsto> ''not-spam''], [''id'' \<mapsto> ''m4'']]"
  let ?mixed = "[[''id'' \<mapsto> ''m1'', ''prediction'' \<mapsto> ''spam''],
                 [''id'' \<mapsto> ''m2'', ''prediction'' \<mapsto> ''Spam ''],
                 [''id'' \<mapsto> ''m3'', ''prediction'' \<mapsto> ''not-spam''],
                 [''id'' \<mapsto> ''m5'', ''prediction'' \<mapsto> CHR 0x85 # ''SPAM'' @ [CHR 0xA0]]]"
  let ?A = "[(''u'', \<lparr>emails = ?quiet, source = ''model prediction'', created_at = 0,
                       expires_at = 7200000001\<rparr>)]"
  let ?B = "[(''u'', \<lparr>emails = ?mixed, source = ''user corrected'', created_at = 0,
                       expires_at = 7200000001\<rparr>)]"
  have gA: "get_active_results (fixed_clock 5) 5 (Some ''u'') ?A
      = ((Some ?quiet, Some ''model prediction''), ?A)"
    by (simp add: get_active_results_def cleanup_expired_cache_def get_user_emails_def
          fixed_clock_def)
  have gB: "get_active_results (fixed_clock 5) 5 (Some ''u'') ?B
      = ((Some ?mixed, Some ''user corrected''), ?B)"
    by (simp add: get_active_results_def cleanup_expired_cache_def get_user_emails_def
          fixed_clock_def)
  have sA: "spam_ids id ?quiet = Inr []"
    by (simp add: prediction_is_spam_def str_defs)
  have sB: "spam_ids id ?mixed = Inr [''m1'', ''m2'', ''m5'']"
    by (simp add: prediction_is_spam_def str_defs)
  have tB: "move_emails_to_trash example_trash [] [''m1'', ''m2'', ''m5'']
      = ([''m1'', ''m2'', ''m5''], Inr 3)"
    by (simp add: move_emails_to_trash_def example_trash_def)
  have n: "show_nat 3 = ''3''"
    by (simp add: show_nat.simps)
  note T1 = spam_selection [of id ?quiet "fixed_clock 5" 5 "Some ''u''" ?A
        "Some ''model prediction''" ?A example_trash "[]"]
  from T1 gA sA
  have A: "move_to_trash (Inr example_trash) id (fixed_clock 5) 5 (Some ''u'') [] ?A
     = (JSONResponse 0 ''No spam emails to move'' (Some ''model prediction''), [], ?A)"
    by blast
  note T2 = spam_selection [of id ?mixed "fixed_clock 5" 5 "Some ''u''" ?B
        "Some ''user corrected''" ?B example_trash "[]" "''m1''" "[''m2'', ''m5'']"
        "[''m1'', ''m2'', ''m5'']" 3]
  from T2 gB sB tB
  have B: "move_to_trash (Inr example_trash) id (fixed_clock 5) 5 (Some ''u'') [] ?B
     = (JSONResponse 3 (show_nat 3 @ '' mails have been moved to trash'') (Some ''user corrected''),
        [''m1'', ''m2'', ''m5''], ?B)"
    by blast
  from A B n show ?thesis by simp
qed

text \<open>
  A live entry with an empty list, as an uploaded sheet without rows leaves it: no
  message is selected, and the answer is the 404 error, not the zero-moved success
  response.
\<close>

theorem empty_list_not_found_counterexample:
  "spam_ids id [] = Inr []
   \<and> move_to_trash (Inr example_trash) id (fixed_clock 5) 5 (Some ''u'') []
        [(''u'', \<lparr>emails = [], source = ''user corrected'', created_at = 0,
                   expires_at = 7200000001\<rparr>)]
      = (HTTPException 404 ''No results found. Please run detection first.'', [],
         [(''u'', \<lparr>emails = [], source = ''user corrected'', created_at = 0,
                    expires_at = 7200000001\<rparr>)])"
  by (simp add: move_to_trash_def get_active_results_def cleanup_expired_cache_def
        get_user_emails_def fixed_clock_def)

end
